theory Spec2Isabelle
  imports Main "HOL-Library.Word" "HOL-Library.Log_Nat" "HOL-Library.Sublist" "HOL-Library.Multiset"
begin

section \<open>JavaScript strings\<close>

text \<open>
  A JavaScript string is a sequence of UTF-16 code units and \<open>length\<close> counts code units.
  \<open>lit\<close> embeds an ASCII literal of the source.
\<close>

type_synonym jsstring = "16 word list"

definition lit :: "string \<Rightarrow> jsstring" where
  "lit s = map of_char s"

text \<open>
  \<open>String.prototype.trim\<close> strips the code units of the ECMAScript productions
  WhiteSpace (TAB, VT, FF, SP, NBSP, ZWNBSP and the category Zs) and LineTerminator
  (LF, CR, LS, PS) from both ends.
\<close>

definition is_trim_space :: "16 word \<Rightarrow> bool" where
  "is_trim_space c \<longleftrightarrow>
     c \<in> {0x09, 0x0A, 0x0B, 0x0C, 0x0D, 0x20, 0xA0, 0x1680, 0x2028, 0x2029,
          0x202F, 0x205F, 0x3000, 0xFEFF}
     \<or> (0x2000 \<le> c \<and> c \<le> 0x200A)"

definition trim :: "jsstring \<Rightarrow> jsstring" where
  "trim s = rev (dropWhile is_trim_space (rev (dropWhile is_trim_space s)))"

section \<open>UploadForm.jsx: the submission form\<close>

text \<open>
  A selected file, as far as the form reads it: \<open>file.name\<close> and \<open>file.size\<close> (bytes).
\<close>

record ResumeFile =
  file_name :: jsstring
  file_size :: nat

text \<open>
  The five \<open>useState\<close> cells of the component. \<open>files\<close> is the initial \<open>[]\<close> or the
  FileList of the file input, so the \<open>!files\<close> half of the guard in
  \<open>validateInputs\<close> never fires and the cell is a list.
\<close>

record form_state =
  jd :: jsstring
  files :: "ResumeFile list"
  loading :: bool
  error :: jsstring
  progress :: int

definition initial_form :: form_state where
  "initial_form = \<lparr>jd = [], files = [], loading = False, error = [], progress = 0\<rparr>"

text \<open>
  Everything \<open>handleSubmit\<close> does to the outside: the calls of the state setters, of the
  \<open>setResults\<close> property and of \<open>rankResumes\<close> (the only network call), in program order.
  The handler closes over the values of one render, so what it reads (\<open>jd\<close>, \<open>files\<close>) is
  the state at the start of the run whatever it has set meanwhile.
\<close>

datatype 'd effect =
    SetError jsstring
  | SetLoading bool
  | SetProgress int
  | SetResults 'd
  | SetJd jsstring
  | SetFiles "ResumeFile list"
  | RankResumes jsstring "ResumeFile list"

text \<open>
  The \<open>for (let file of files)\<close> loop of \<open>validateInputs\<close>: the messages passed to
  \<open>setError\<close> and the value returned.
\<close>

fun size_loop :: "ResumeFile list \<Rightarrow> jsstring list \<times> bool" where
  "size_loop [] = ([], True)"
| "size_loop (file # rest) =
     (if file_size file > 5 * 1024 * 1024
      then ([lit ''File '' @ file_name file @ lit '' exceeds 5MB limit''], False)
      else size_loop rest)"

definition validateInputs :: "form_state \<Rightarrow> jsstring list \<times> bool" where
  "validateInputs st =
     (if trim (jd st) = [] then
        ([lit ''Job description cannot be empty''], False)
      else if length (trim (jd st)) < 50 then
        ([lit ''Job description must be at least 50 characters''], False)
      else if length (files st) = 0 then
        ([lit ''Please upload at least one resume''], False)
      else if length (files st) > 10 then
        ([lit ''Maximum 10 resumes allowed''], False)
      else size_loop (files st))"

text \<open>
  How the awaited \<open>rankResumes\<close> promise settles: resolved with the response data, or
  rejected with an error whose \<open>message\<close> may be missing.
\<close>

datatype 'd response = Resolved 'd | Rejected "jsstring option"

definition message_or_default :: "jsstring option \<Rightarrow> jsstring" where
  "message_or_default m =
     (case m of
        None \<Rightarrow> lit ''Failed to rank resumes. Please try again.''
      | Some s \<Rightarrow> if s = [] then lit ''Failed to rank resumes. Please try again.'' else s)"

definition handleSubmit :: "form_state \<Rightarrow> 'd response \<Rightarrow> 'd effect list" where
  "handleSubmit st resp =
     SetError [] #
     (let (msgs, ok) = validateInputs st in
      map SetError msgs @
      (if \<not> ok then []
       else
         [SetLoading True, SetProgress 10] @
         [SetProgress 30, RankResumes (jd st) (files st)] @
         (case resp of
            Resolved data \<Rightarrow> [SetProgress 100, SetResults data, SetJd [], SetFiles []]
          | Rejected m \<Rightarrow> [SetError (message_or_default m)]) @
         [SetLoading False, SetProgress 0]))"

fun apply_effect :: "'d effect \<Rightarrow> form_state \<Rightarrow> form_state" where
  "apply_effect (SetError m) st = st\<lparr>error := m\<rparr>"
| "apply_effect (SetLoading b) st = st\<lparr>loading := b\<rparr>"
| "apply_effect (SetProgress n) st = st\<lparr>progress := n\<rparr>"
| "apply_effect (SetResults d) st = st"
| "apply_effect (SetJd s) st = st\<lparr>jd := s\<rparr>"
| "apply_effect (SetFiles fs) st = st\<lparr>files := fs\<rparr>"
| "apply_effect (RankResumes j fs) st = st"

text \<open>The form after one click on the button: the effects of the handler, applied in order.\<close>

definition submit :: "form_state \<Rightarrow> 'd response \<Rightarrow> form_state" where
  "submit st resp = fold apply_effect (handleSubmit st resp) st"

definition handleFileChange :: "ResumeFile list \<Rightarrow> form_state \<Rightarrow> form_state" where
  "handleFileChange target_files st = st\<lparr>files := target_files, error := []\<rparr>"

definition handleJdChange :: "jsstring \<Rightarrow> form_state \<Rightarrow> form_state" where
  "handleJdChange target_value st =
     (let st' = st\<lparr>jd := target_value\<rparr> in if error st \<noteq> [] then st'\<lparr>error := []\<rparr> else st')"

text \<open>The observable parts of an effect log.\<close>

fun network_calls :: "'d effect list \<Rightarrow> (jsstring \<times> ResumeFile list) list" where
  "network_calls [] = []"
| "network_calls (RankResumes j fs # es) = (j, fs) # network_calls es"
| "network_calls (_ # es) = network_calls es"

fun progress_values :: "'d effect list \<Rightarrow> int list" where
  "progress_values [] = []"
| "progress_values (SetProgress n # es) = n # progress_values es"
| "progress_values (_ # es) = progress_values es"

fun published :: "'d effect list \<Rightarrow> 'd list" where
  "published [] = []"
| "published (SetResults d # es) = d # published es"
| "published (_ # es) = published es"

fun error_messages :: "'d effect list \<Rightarrow> jsstring list" where
  "error_messages [] = []"
| "error_messages (SetError m # es) = m # error_messages es"
| "error_messages (_ # es) = error_messages es"

fun input_writes :: "'d effect list \<Rightarrow> 'd effect list" where
  "input_writes [] = []"
| "input_writes (SetJd s # es) = SetJd s # input_writes es"
| "input_writes (SetFiles fs # es) = SetFiles fs # input_writes es"
| "input_writes (_ # es) = input_writes es"

text \<open>
  The states the form can be in between two clicks: the initial one, and what the three
  handlers make of a reachable one.
\<close>

inductive reachable :: "'d itself \<Rightarrow> form_state \<Rightarrow> bool" for ty :: "'d itself" where
  reach_init: "reachable ty initial_form"
| reach_jd: "reachable ty st \<Longrightarrow> reachable ty (handleJdChange v st)"
| reach_files: "reachable ty st \<Longrightarrow> reachable ty (handleFileChange fs st)"
| reach_submit: "reachable ty st \<Longrightarrow> reachable ty (submit st (resp :: 'd response))"

subsection \<open>The error taxonomy of the specification\<close>

text \<open>
  The specification names the failures; the form shows them as these messages.
\<close>

definition EmptyJobDescription :: jsstring where
  "EmptyJobDescription = lit ''Job description cannot be empty''"

definition JobDescriptionTooShort :: jsstring where
  "JobDescriptionTooShort = lit ''Job description must be at least 50 characters''"

definition NoFilesProvided :: jsstring where
  "NoFilesProvided = lit ''Please upload at least one resume''"

definition TooManyFiles :: jsstring where
  "TooManyFiles = lit ''Maximum 10 resumes allowed''"

definition FileTooLarge :: "jsstring \<Rightarrow> jsstring" where
  "FileTooLarge fileName = lit ''File '' @ fileName @ lit '' exceeds 5MB limit''"

text \<open>
  The specification's list of preconditions (section 4.1), in its words: five checks in
  order, the first failure reported, the first oversized file in submission order named.
  It is compared with \<open>validateInputs\<close> below.
\<close>

definition first_failure :: "form_state \<Rightarrow> jsstring option" where
  "first_failure st =
     (if trim (jd st) = [] then Some EmptyJobDescription
      else if \<not> 50 \<le> length (trim (jd st)) then Some JobDescriptionTooShort
      else if files st = [] then Some NoFilesProvided
      else if \<not> length (files st) \<le> 10 then Some TooManyFiles
      else (case find (\<lambda>f. \<not> file_size f \<le> 5 * 1024 * 1024) (files st) of
              Some f \<Rightarrow> Some (FileTooLarge (file_name f))
            | None \<Rightarrow> None))"

section \<open>JavaScript numbers\<close>

text \<open>
  A Number is a binary64 value. The finite ones are modelled by the rationals they denote,
  and every arithmetic operation rounds its exact result to the nearest binary64 value,
  ties to the even significand: \<open>fl\<close>. The rounding is the one of the normal range
  (53 significant bits, no overflow to Infinity, no subnormals); the statements below that
  depend on it carry a bound that keeps every value there.
\<close>

datatype jsnum = Num rat | NaN | PosInfinity | NegInfinity

definition rne :: "rat \<Rightarrow> int" where
  "rne y = (let f = \<lfloor>y\<rfloor>; r = y - of_int f in
     if r < 1 / 2 then f else if 1 / 2 < r then f + 1 else if even f then f else f + 1)"

text \<open>The binary exponent of a non-zero rational: \<open>2 powi expo x \<le> \<bar>x\<bar> < 2 powi (expo x + 1)\<close>.\<close>

definition expo :: "rat \<Rightarrow> int" where
  "expo x = (let (p, q) = quotient_of \<bar>x\<bar>; d = bitlen p - bitlen q in
     if 2 powi d \<le> \<bar>x\<bar> then d else d - 1)"

definition fl :: "rat \<Rightarrow> rat" where
  "fl x = (if x = 0 then 0
           else let u = 2 powi (expo x - 52) in of_int (rne (x / u)) * u)"

definition js_add :: "rat \<Rightarrow> rat \<Rightarrow> rat" where
  "js_add a b = fl (a + b)"

definition js_divide :: "rat \<Rightarrow> rat \<Rightarrow> jsnum" where
  "js_divide a b =
     (if b = 0 then (if a = 0 then NaN else if 0 < a then PosInfinity else NegInfinity)
      else Num (fl (a / b)))"

text \<open>
  \<open>Math.max(...xs)\<close> starts from \<open>-Infinity\<close> and keeps the larger value.
\<close>

fun Math_max :: "rat list \<Rightarrow> jsnum" where
  "Math_max [] = NegInfinity"
| "Math_max (x # xs) = Num (fold max xs x)"

text \<open>
  \<open>Number.prototype.toFixed(1)\<close>. A value that is not finite is printed by name. Otherwise
  the sign is split off, \<open>n\<close> is the integer with \<open>n / 10\<close> nearest to the value (the
  larger one of two), and the digits of \<open>n\<close> are printed with a point before the last.
  From \<open>10^21\<close> on the method falls back to exponent notation, whose digits are not
  modelled: \<open>ExponentText\<close>.
\<close>

datatype num_text = Text jsstring | ExponentText rat

fun digits :: "nat \<Rightarrow> jsstring" where
  "digits n = (if n < 10 then [of_nat (48 + n)]
               else digits (n div 10) @ [of_nat (48 + n mod 10)])"

declare digits.simps [simp del]

definition fixed1_tenths :: "rat \<Rightarrow> nat" where
  "fixed1_tenths x = nat \<lfloor>\<bar>x\<bar> * 10 + 1 / 2\<rfloor>"

text \<open>The same integer with the sign of the value: the number printed is a tenth of it.\<close>

definition signed_tenths :: "rat \<Rightarrow> int" where
  "signed_tenths x = (if x < 0 then - int (fixed1_tenths x) else int (fixed1_tenths x))"

definition fixed1_text :: "bool \<Rightarrow> nat \<Rightarrow> jsstring" where
  "fixed1_text negative n =
     (if negative then lit ''-'' else []) @ digits (n div 10) @ lit ''.'' @ digits (n mod 10)"

fun toFixed1 :: "jsnum \<Rightarrow> num_text" where
  "toFixed1 NaN = Text (lit ''NaN'')"
| "toFixed1 PosInfinity = Text (lit ''Infinity'')"
| "toFixed1 NegInfinity = Text (lit ''-Infinity'')"
| "toFixed1 (Num x) =
     (if 10 ^ 21 \<le> \<bar>x\<bar> then ExponentText x
      else Text (fixed1_text (x < 0) (fixed1_tenths x)))"

section \<open>JavaScript arrays\<close>

text \<open>
  Arrays are objects: a variable holds a reference, and \<open>sort\<close> changes the array it is
  called on. The heap is the list of all arrays allocated so far and a reference is an
  index into it; a new array is appended.
\<close>

type_synonym ref = nat
type_synonym 'a heap = "'a list list"

definition new_array :: "'a list \<Rightarrow> 'a heap \<Rightarrow> ref \<times> 'a heap" where
  "new_array xs h = (length h, h @ [xs])"

text \<open>\<open>arr.filter(p)\<close>: a new array.\<close>

definition array_filter :: "('a \<Rightarrow> bool) \<Rightarrow> ref \<Rightarrow> 'a heap \<Rightarrow> ref \<times> 'a heap" where
  "array_filter p a h = new_array (filter p (h ! a)) h"

text \<open>\<open>[...arr]\<close>: a new array with the same elements.\<close>

definition array_spread :: "ref \<Rightarrow> 'a heap \<Rightarrow> ref \<times> 'a heap" where
  "array_spread a h = new_array (h ! a) h"

text \<open>
  \<open>Array.prototype.sort(cmp)\<close> is stable (ECMAScript 2019): an element goes before the
  elements it does not compare greater than, and after the others. For a comparator that
  is a consistent ordering every stable sort gives this result; for one that is not the
  order is the engine's choice and this is one of them.
\<close>

fun insert_by :: "('a \<Rightarrow> 'a \<Rightarrow> int) \<Rightarrow> 'a \<Rightarrow> 'a list \<Rightarrow> 'a list" where
  "insert_by cmp x [] = [x]"
| "insert_by cmp x (y # ys) = (if cmp x y \<le> 0 then x # y # ys else y # insert_by cmp x ys)"

definition js_sort :: "('a \<Rightarrow> 'a \<Rightarrow> int) \<Rightarrow> 'a list \<Rightarrow> 'a list" where
  "js_sort cmp xs = foldr (insert_by cmp) xs []"

text \<open>
  A comparator is a consistent ordering when "not greater" is total and transitive.
\<close>

definition consistent :: "('a \<Rightarrow> 'a \<Rightarrow> int) \<Rightarrow> bool" where
  "consistent cmp \<longleftrightarrow>
     (\<forall>x y. cmp x y \<le> 0 \<or> cmp y x \<le> 0)
     \<and> (\<forall>x y z. cmp x y \<le> 0 \<and> cmp y z \<le> 0 \<longrightarrow> cmp x z \<le> 0)"

text \<open>\<open>arr.sort(cmp)\<close>: sorts \<open>arr\<close> in place and returns the same reference.\<close>

definition array_sort :: "('a \<Rightarrow> 'a \<Rightarrow> int) \<Rightarrow> ref \<Rightarrow> 'a heap \<Rightarrow> ref \<times> 'a heap" where
  "array_sort cmp a h = (a, h[a := js_sort cmp (h ! a)])"

section \<open>Results.jsx: the ranked results\<close>

text \<open>
  One entry of the response. The score is an integer-valued Number; nothing in the
  component checks its range.
\<close>

record RankedResult =
  name :: jsstring
  score :: int
  rank :: "int option"
  assessment :: "jsstring option"
  explanation :: "jsstring option"

record Stats =
  total :: nat
  avgScore :: num_text
  topScore :: jsnum

record view =
  filtered :: ref
  sorted_results :: ref
  stats :: Stats

datatype rendered = EmptyState | ResultsView view

text \<open>
  The comparator handed to \<open>sort\<close>. \<open>localeCompare\<close> depends on the host's locale data
  and is a parameter.
\<close>

definition compare_results ::
  "(jsstring \<Rightarrow> jsstring \<Rightarrow> int) \<Rightarrow> jsstring \<Rightarrow> RankedResult \<Rightarrow> RankedResult \<Rightarrow> int" where
  "compare_results localeCompare sortBy a b =
     (if sortBy = lit ''score'' then score b - score a
      else if sortBy = lit ''name'' then localeCompare (name a) (name b)
      else 0)"

definition compute_stats :: "RankedResult list \<Rightarrow> Stats" where
  "compute_stats results =
     \<lparr>total = length results,
      avgScore = toFixed1 (js_divide (foldl (\<lambda>sum r. js_add sum (of_int (score r))) 0 results)
                                     (of_nat (length results))),
      topScore = Math_max (map (\<lambda>r. of_int (score r)) results)\<rparr>"

text \<open>
  One render of the component: the \<open>results\<close> property (\<open>None\<close> for a missing one), the
  state cells \<open>sortBy\<close> and \<open>filterThreshold\<close>, and the heap the references live in.
\<close>

definition Results ::
  "(jsstring \<Rightarrow> jsstring \<Rightarrow> int) \<Rightarrow> ref option \<Rightarrow> jsstring \<Rightarrow> int \<Rightarrow> RankedResult heap
     \<Rightarrow> rendered \<times> RankedResult heap" where
  "Results localeCompare results sortBy filterThreshold h =
     (case results of
        None \<Rightarrow> (EmptyState, h)
      | Some r \<Rightarrow>
          if length (h ! r) = 0 then (EmptyState, h)
          else
            let (fltr, h1) = array_filter (\<lambda>x. score x \<ge> filterThreshold) r h;
                (copy, h2) = array_spread fltr h1;
                (srtd, h3) = array_sort (compare_results localeCompare sortBy) copy h2;
                sts = compute_stats (h3 ! r)
            in (ResultsView \<lparr>filtered = fltr, sorted_results = srtd, stats = sts\<rparr>, h3))"

text \<open>The list the component shows: the sorted array, read from the heap after the render.\<close>

definition visible :: "rendered \<times> RankedResult heap \<Rightarrow> RankedResult list" where
  "visible out = (case fst out of EmptyState \<Rightarrow> [] | ResultsView v \<Rightarrow> snd out ! sorted_results v)"

definition getScoreBadge :: "int \<Rightarrow> jsstring" where
  "getScoreBadge sc =
     (if sc \<ge> 80 then [0xD83D, 0xDFE2] @ lit '' Excellent''
      else if sc \<ge> 60 then [0xD83D, 0xDFE1] @ lit '' Good''
      else if sc \<ge> 40 then [0xD83D, 0xDFE0] @ lit '' Fair''
      else [0xD83D, 0xDD34] @ lit '' Poor'')"

subsection \<open>The categories of the specification\<close>

text \<open>
  The specification's four tiers (section 4.2), in its words, and the badge text the
  component shows for each: a coloured circle, a space and the name of the tier.
\<close>

datatype category = Excellent | Good | Fair | Poor

definition categorize :: "int \<Rightarrow> category" where
  "categorize s =
     (if s \<ge> 80 then Excellent
      else if 60 \<le> s \<and> s < 80 then Good
      else if 40 \<le> s \<and> s < 60 then Fair
      else Poor)"

fun category_name :: "category \<Rightarrow> string" where
  "category_name Excellent = ''Excellent''"
| "category_name Good = ''Good''"
| "category_name Fair = ''Fair''"
| "category_name Poor = ''Poor''"

text \<open>
  The circles, as UTF-16 surrogate pairs: green U+1F7E2, yellow U+1F7E1, orange U+1F7E0 and
  red U+1F534.
\<close>

fun circle :: "category \<Rightarrow> jsstring" where
  "circle Excellent = [0xD83D, 0xDFE2]"
| "circle Good = [0xD83D, 0xDFE1]"
| "circle Fair = [0xD83D, 0xDFE0]"
| "circle Poor = [0xD83D, 0xDD34]"

definition badge :: "category \<Rightarrow> jsstring" where
  "badge c = circle c @ lit '' '' @ lit (category_name c)"

section \<open>Example inputs\<close>

definition demo_jd :: jsstring where
  "demo_jd = lit ''  Senior engineer with five years of proof assistant experience  ''"

definition small_pdf :: "string \<Rightarrow> ResumeFile" where
  "small_pdf n = \<lparr>file_name = lit n, file_size = 1024 * 1024\<rparr>"

definition big_pdf :: ResumeFile where
  "big_pdf = \<lparr>file_name = lit ''big.pdf'', file_size = 6 * 1024 * 1024\<rparr>"

definition demo_batch :: "ResumeFile list" where
  "demo_batch = [small_pdf ''a.pdf'', small_pdf ''b.pdf'', small_pdf ''c.pdf'', big_pdf,
     small_pdf ''d.pdf'', small_pdf ''e.pdf'', small_pdf ''f.pdf'', small_pdf ''g.pdf'',
     small_pdf ''h.pdf'', small_pdf ''i.pdf'']"

definition one_pdf_form :: form_state where
  "one_pdf_form = \<lparr>jd = demo_jd, files = [small_pdf ''cv.pdf''], loading = False, error = [],
     progress = 0\<rparr>"

definition candidate :: "string \<Rightarrow> int \<Rightarrow> RankedResult" where
  "candidate n s = \<lparr>name = lit n, score = s, rank = None, assessment = None, explanation = None\<rparr>"

text \<open>A stand-in for \<open>localeCompare\<close> where the collation does not matter.\<close>

definition no_collation :: "jsstring \<Rightarrow> jsstring \<Rightarrow> int" where
  "no_collation a b = 0"

text \<open>Heaps that hold one result set, at reference 0.\<close>

definition three_results :: "RankedResult heap" where
  "three_results = [[candidate ''A'' 90, candidate ''B'' 70, candidate ''C'' 50]]"

definition mixed_results :: "RankedResult heap" where
  "mixed_results = [[candidate ''C'' 70, candidate ''A'' 50, candidate ''D'' 90, candidate ''B'' 70]]"

section \<open>Properties of the submission form\<close>

subsection \<open>The loop and the decision list\<close>

lemma size_loop_find:
  "size_loop fs =
     (case find (\<lambda>f. \<not> file_size f \<le> 5 * 1024 * 1024) fs of
        Some f \<Rightarrow> ([FileTooLarge (file_name f)], False)
      | None \<Rightarrow> ([], True))"
  by (induction fs) (simp_all add: FileTooLarge_def not_le)

lemma validateInputs_first_failure:
  "validateInputs st = (case first_failure st of Some e \<Rightarrow> ([e], False) | None \<Rightarrow> ([], True))"
  by (simp add: validateInputs_def first_failure_def size_loop_find EmptyJobDescription_def
      JobDescriptionTooShort_def NoFilesProvided_def TooManyFiles_def not_le split: option.split)

lemma handleSubmit_invalid:
  "validateInputs st = (msgs, False) \<Longrightarrow> handleSubmit st resp = SetError [] # map SetError msgs"
  by (simp add: handleSubmit_def)

lemma handleSubmit_valid:
  "validateInputs st = (msgs, True) \<Longrightarrow>
   handleSubmit st resp =
     SetError [] # map SetError msgs @
       [SetLoading True, SetProgress 10, SetProgress 30, RankResumes (jd st) (files st)] @
       (case resp of
          Resolved data \<Rightarrow> [SetProgress 100, SetResults data, SetJd [], SetFiles []]
        | Rejected m \<Rightarrow> [SetError (message_or_default m)]) @
       [SetLoading False, SetProgress 0]"
  by (simp add: handleSubmit_def)

lemma find_first_offender:
  assumes "\<forall>g\<in>set pre. \<not> P g" and "P f"
  shows "find P (pre @ f # post) = Some f"
  using assms by (induction pre) simp_all

text \<open>
  Claim C1. Every submission runs the five checks of the specification in their order
  (trimmed job description non-empty; trimmed length at least 50; at least one file; at most
  ten files; every file at most \<open>5 * 1024 * 1024\<close> bytes, in submission order) and reports
  the first failure only: after the opening \<open>setError("")\<close> exactly one message is set, it
  is the form's error afterwards, and \<open>rankResumes\<close> is not called. An oversized file
  preceded only by files within the limit is the one named. \<open>rankResumes\<close> is called, once
  and with the job description and files of the form, exactly when no check fails.
\<close>

theorem submit_checks_in_order:
  "(first_failure st = None \<longrightarrow>
      network_calls (handleSubmit st resp) = [(jd st, files st)])
   \<and> (\<forall>e. first_failure st = Some e \<longrightarrow>
         error_messages (handleSubmit st resp) = [[], e]
         \<and> error (submit st resp) = e
         \<and> network_calls (handleSubmit st resp) = [])
   \<and> (\<forall>pre f post.
         50 \<le> length (trim (jd st)) \<and> files st = pre @ f # post \<and> length (files st) \<le> 10
         \<and> (\<forall>g\<in>set pre. file_size g \<le> 5 * 1024 * 1024) \<and> 5 * 1024 * 1024 < file_size f
         \<longrightarrow> first_failure st = Some (FileTooLarge (file_name f)))"
proof (intro conjI allI impI)
  assume "first_failure st = None"
  then have "validateInputs st = ([], True)"
    by (simp add: validateInputs_first_failure)
  then show "network_calls (handleSubmit st resp) = [(jd st, files st)]"
    by (cases resp) (simp_all add: handleSubmit_valid)
next
  fix e assume "first_failure st = Some e"
  then have v: "validateInputs st = ([e], False)"
    by (simp add: validateInputs_first_failure)
  show "error_messages (handleSubmit st resp) = [[], e]"
    by (simp add: handleSubmit_invalid [OF v])
  show "error (submit st resp) = e"
    by (simp add: submit_def handleSubmit_invalid [OF v])
  show "network_calls (handleSubmit st resp) = []"
    by (simp add: handleSubmit_invalid [OF v])
next
  fix pre f post
  assume a: "50 \<le> length (trim (jd st)) \<and> files st = pre @ f # post \<and> length (files st) \<le> 10
         \<and> (\<forall>g\<in>set pre. file_size g \<le> 5 * 1024 * 1024) \<and> 5 * 1024 * 1024 < file_size f"
  then have "find (\<lambda>f. \<not> file_size f \<le> 5 * 1024 * 1024) (files st) = Some f"
    using find_first_offender [of pre "\<lambda>f. \<not> file_size f \<le> 5 * 1024 * 1024" f post] by simp
  moreover from a have "trim (jd st) \<noteq> []" by auto
  moreover from a have "files st \<noteq> []" by auto
  moreover from a have "50 \<le> length (trim (jd st))" and "length (files st) \<le> 10" by blast+
  ultimately show "first_failure st = Some (FileTooLarge (file_name f))"
    by (simp add: first_failure_def)
qed


lemma trim_demo_jd: "trim demo_jd = lit ''Senior engineer with five years of proof assistant experience''"
  by (simp add: demo_jd_def trim_def lit_def is_trim_space_def)

lemma length_trim_demo: "length (trim demo_jd) = 61"
  by (simp add: trim_demo_jd) (simp add: lit_def)

theorem submit_checks_in_order_witness:
  "error (submit \<lparr>jd = demo_jd, files = demo_batch, loading = False, error = [], progress = 0\<rparr>
            (Resolved ())) = FileTooLarge (lit ''big.pdf'')
   \<and> network_calls (handleSubmit
        \<lparr>jd = demo_jd, files = demo_batch, loading = False, error = [], progress = 0\<rparr>
        (Resolved ())) = []
   \<and> network_calls (handleSubmit
        \<lparr>jd = demo_jd, files = [small_pdf ''a.pdf''], loading = False, error = [], progress = 0\<rparr>
        (Resolved ())) = [(demo_jd, [small_pdf ''a.pdf''])]"
proof -
  let ?bad = "\<lparr>jd = demo_jd, files = demo_batch, loading = False, error = [], progress = 0\<rparr>"
  let ?good = "\<lparr>jd = demo_jd, files = [small_pdf ''a.pdf''], loading = False, error = [], progress = 0\<rparr>"
  have pre: "50 \<le> length (trim (jd ?bad))
      \<and> files ?bad = [small_pdf ''a.pdf'', small_pdf ''b.pdf'', small_pdf ''c.pdf''] @ big_pdf #
          [small_pdf ''d.pdf'', small_pdf ''e.pdf'', small_pdf ''f.pdf'', small_pdf ''g.pdf'',
           small_pdf ''h.pdf'', small_pdf ''i.pdf'']
      \<and> length (files ?bad) \<le> 10
      \<and> (\<forall>g\<in>set [small_pdf ''a.pdf'', small_pdf ''b.pdf'', small_pdf ''c.pdf''].
            file_size g \<le> 5 * 1024 * 1024)
      \<and> 5 * 1024 * 1024 < file_size big_pdf"
    by (simp add: length_trim_demo demo_batch_def small_pdf_def big_pdf_def)
  have bad: "first_failure ?bad = Some (FileTooLarge (file_name big_pdf))"
    using submit_checks_in_order [of ?bad "Resolved ()"] pre by blast
  have good: "first_failure ?good = None"
    by (simp add: first_failure_def length_trim_demo small_pdf_def) (simp add: trim_demo_jd lit_def)
  show ?thesis
    using submit_checks_in_order [of ?bad "Resolved ()"] submit_checks_in_order [of ?good "Resolved ()"]
      bad good by (simp add: big_pdf_def)
qed

subsection \<open>Inputs after a submission\<close>

lemma validateInputs_cases:
  obtains (invalid) msgs where "validateInputs st = (msgs, False)"
        | (valid) "validateInputs st = ([], True)"
  by (cases "first_failure st") (simp_all add: validateInputs_first_failure)

lemma one_pdf_form_valid: "validateInputs one_pdf_form = ([], True)"
  by (simp add: validateInputs_def one_pdf_form_def length_trim_demo small_pdf_def)
     (simp add: trim_demo_jd lit_def)

text \<open>
  Claim C6. When validation passes and the request resolves, the submission clears the
  job description and the file selection and hands the response data to \<open>setResults\<close>,
  once. When validation fails or the request is rejected, both inputs are what they were
  before the click: the handler writes neither of them and publishes nothing.
\<close>

theorem submit_inputs_cleared_or_kept:
  "(snd (validateInputs st) \<and> resp = Resolved d \<longrightarrow>
      jd (submit st resp) = [] \<and> files (submit st resp) = []
      \<and> published (handleSubmit st resp) = [d])
   \<and> (\<not> snd (validateInputs st) \<or> (\<exists>m. resp = Rejected m) \<longrightarrow>
      jd (submit st resp) = jd st \<and> files (submit st resp) = files st
      \<and> input_writes (handleSubmit st resp) = []
      \<and> published (handleSubmit st resp) = [])"
proof (cases st rule: validateInputs_cases)
  case (invalid msgs)
  have "fold apply_effect (map SetError msgs :: 'a effect list) s = s\<lparr>error := last (error s # msgs)\<rparr>" for s
    by (induction msgs arbitrary: s) simp_all
  moreover have "input_writes (map SetError msgs :: 'a effect list) = []"
    by (induction msgs) simp_all
  moreover have "published (map SetError msgs :: 'a effect list) = []"
    by (induction msgs) simp_all
  ultimately show ?thesis
    using invalid by (simp add: submit_def handleSubmit_invalid [OF invalid])
next
  case valid
  show ?thesis
    by (cases resp) (simp_all add: valid submit_def handleSubmit_valid [OF valid])
qed

theorem submit_inputs_cleared_or_kept_witness:
  "jd (submit one_pdf_form (Resolved [candidate ''A'' 90])) = []
   \<and> files (submit one_pdf_form (Resolved [candidate ''A'' 90])) = []
   \<and> published (handleSubmit one_pdf_form (Resolved [candidate ''A'' 90])) = [[candidate ''A'' 90]]
   \<and> jd (submit one_pdf_form
        (Rejected (Some (lit ''timeout of 120000ms exceeded'')) :: RankedResult list response))
       = demo_jd
   \<and> files (submit one_pdf_form
        (Rejected (Some (lit ''timeout of 120000ms exceeded'')) :: RankedResult list response))
       = [small_pdf ''cv.pdf'']
   \<and> jd (submit initial_form (Resolved [candidate ''A'' 90])) = jd initial_form"
proof -
  have invalid: "\<not> snd (validateInputs initial_form)"
    by (simp add: validateInputs_def initial_form_def trim_def)
  show ?thesis
    using submit_inputs_cleared_or_kept
        [of one_pdf_form "Resolved [candidate ''A'' 90]" "[candidate ''A'' 90]"]
      submit_inputs_cleared_or_kept
        [of one_pdf_form
            "Rejected (Some (lit ''timeout of 120000ms exceeded'')) :: RankedResult list response"
            "[]"]
      submit_inputs_cleared_or_kept [of initial_form "Resolved [candidate ''A'' 90]" "[]"]
      invalid
    by (simp add: one_pdf_form_valid) (simp add: one_pdf_form_def)
qed

subsection \<open>Short job descriptions\<close>

text \<open>
  Claim C7, as the code has it. A job description whose trimmed length is below 50 is
  rejected without a call of \<open>rankResumes\<close>; the error is JobDescriptionTooShort when
  the trimmed text has between 1 and 49 code units, and EmptyJobDescription when nothing
  is left after trimming, since the emptiness check comes first.
\<close>

theorem short_job_description_rejected:
  "length (trim (jd st)) < 50 \<Longrightarrow>
     network_calls (handleSubmit st resp) = []
     \<and> error (submit st resp) =
         (if trim (jd st) = [] then EmptyJobDescription else JobDescriptionTooShort)"
proof -
  assume short: "length (trim (jd st)) < 50"
  let ?e = "if trim (jd st) = [] then EmptyJobDescription else JobDescriptionTooShort"
  from short have v: "validateInputs st = ([?e], False)"
    by (simp add: validateInputs_def EmptyJobDescription_def JobDescriptionTooShort_def)
  show ?thesis
    unfolding submit_def handleSubmit_invalid [OF v] by simp
qed

theorem short_job_description_rejected_witness:
  "length (trim (jd (initial_form\<lparr>jd := lit ''  Python developer ''\<rparr>))) < 50
   \<and> network_calls (handleSubmit (initial_form\<lparr>jd := lit ''  Python developer ''\<rparr>) (Resolved ())) = []
   \<and> error (submit (initial_form\<lparr>jd := lit ''  Python developer ''\<rparr>) (Resolved ()))
       = JobDescriptionTooShort"
proof -
  have t: "trim (lit ''  Python developer '') = lit ''Python developer''"
    by (simp add: trim_def lit_def is_trim_space_def)
  have l: "length (trim (jd (initial_form\<lparr>jd := lit ''  Python developer ''\<rparr>))) < 50"
    by (simp add: t) (simp add: lit_def)
  show ?thesis
    using short_job_description_rejected [OF l, of "Resolved ()"] l
    by (simp add: t) (simp add: lit_def)
qed

text \<open>
  A job description of three spaces has trimmed length 0, below 50, and the error shown is
  not JobDescriptionTooShort.
\<close>

theorem short_job_description_counterexample:
  "length (trim (jd (initial_form\<lparr>jd := lit ''   ''\<rparr>))) < 50
   \<and> error (submit (initial_form\<lparr>jd := lit ''   ''\<rparr>) (Resolved ())) \<noteq> JobDescriptionTooShort"
  by (simp add: initial_form_def submit_def handleSubmit_def validateInputs_def trim_def lit_def
      is_trim_space_def JobDescriptionTooShort_def)

subsection \<open>The progress indicator\<close>

lemma progress_values_errors [simp]: "progress_values (map SetError msgs :: 'a effect list) = []"
  by (induction msgs) simp_all

lemma fold_errors_progress [simp]:
  "progress (fold apply_effect (map SetError msgs :: 'a effect list) s) = progress s"
  by (induction msgs arbitrary: s) simp_all

lemma submit_progress:
  "progress (submit st resp) = (if snd (validateInputs st) then 0 else progress st)"
proof (cases st rule: validateInputs_cases)
  case (invalid msgs)
  then show ?thesis by (simp add: submit_def handleSubmit_invalid [OF invalid])
next
  case valid
  then show ?thesis by (cases resp) (simp_all add: submit_def handleSubmit_valid [OF valid])
qed

lemma reachable_idle: "reachable ty st \<Longrightarrow> progress st = 0"
proof (induction rule: reachable.induct)
  case reach_init
  show ?case by (simp add: initial_form_def)
next
  case (reach_jd st v)
  then show ?case by (simp add: handleJdChange_def Let_def)
next
  case (reach_files st fs)
  then show ?case by (simp add: handleFileChange_def)
next
  case (reach_submit st resp)
  then show ?case by (simp add: submit_progress)
qed

text \<open>
  Claim C9, as the code has it. The values passed to \<open>setProgress\<close> in one run are: none
  when validation fails (the indicator keeps its value, which is 0 in every state the form
  can reach); 10, 30 and then 0 when the request is rejected; 10, 30, 100 and then 0 when
  it resolves. All lie in [0,100] and they are non-decreasing up to the closing reset to 0,
  which the \<open>finally\<close> block performs after a success as well as after a failure.
\<close>

theorem progress_checkpoints:
  "progress_values (handleSubmit st resp) =
     (if \<not> snd (validateInputs st) then []
      else case resp of Resolved d \<Rightarrow> [10, 30, 100, 0] | Rejected m \<Rightarrow> [10, 30, 0])
   \<and> (\<forall>n\<in>set (progress_values (handleSubmit st resp)). 0 \<le> n \<and> n \<le> 100)
   \<and> sorted (butlast (progress_values (handleSubmit st resp)))
   \<and> progress (submit st resp) = (if snd (validateInputs st) then 0 else progress st)
   \<and> (reachable TYPE('d) st \<longrightarrow> progress (submit st (resp :: 'd response)) = 0)"
proof -
  have vals: "progress_values (handleSubmit st resp) =
     (if \<not> snd (validateInputs st) then []
      else case resp of Resolved d \<Rightarrow> [10, 30, 100, 0] | Rejected m \<Rightarrow> [10, 30, 0])"
  proof (cases st rule: validateInputs_cases)
    case (invalid msgs)
    then show ?thesis by (simp add: handleSubmit_invalid [OF invalid])
  next
    case valid
    then show ?thesis by (cases resp) (simp_all add: handleSubmit_valid [OF valid])
  qed
  have rng: "\<forall>n\<in>set (progress_values (handleSubmit st resp)). 0 \<le> n \<and> n \<le> 100"
    unfolding vals by (cases resp) simp_all
  have mono: "sorted (butlast (progress_values (handleSubmit st resp)))"
    unfolding vals by (cases resp) simp_all
  have idle: "progress (submit st resp) = 0" if "reachable TYPE('d) st"
    using reachable_idle [OF that] by (simp add: submit_progress)
  show ?thesis
    using vals rng mono idle submit_progress [of st resp] by blast
qed

theorem progress_checkpoints_witness:
  "progress_values (handleSubmit one_pdf_form (Resolved ())) = [10, 30, 100, 0]
   \<and> progress_values (handleSubmit one_pdf_form (Rejected None :: unit response)) = [10, 30, 0]
   \<and> progress_values (handleSubmit initial_form (Resolved ())) = []
   \<and> reachable TYPE(unit) (handleJdChange demo_jd initial_form)
   \<and> progress (submit (handleJdChange demo_jd initial_form) (Resolved ())) = 0"
proof -
  have r: "reachable TYPE(unit) (handleJdChange demo_jd initial_form)"
    by (intro reach_jd reach_init)
  have i: "\<not> snd (validateInputs initial_form)"
    by (simp add: validateInputs_def initial_form_def trim_def)
  show ?thesis
    using progress_checkpoints [of one_pdf_form "Resolved ()"]
      progress_checkpoints [of one_pdf_form "Rejected None :: unit response"]
      progress_checkpoints [of initial_form "Resolved ()"]
      progress_checkpoints [of "handleJdChange demo_jd initial_form" "Resolved ()"] r i
    by (simp add: one_pdf_form_valid)
qed

text \<open>
  In a successful run the published values are 10, 30, 100, 0: not non-decreasing.
\<close>

theorem progress_monotone_counterexample:
  "\<not> sorted (progress_values (handleSubmit one_pdf_form (Resolved ())))"
  by (simp add: handleSubmit_valid [OF one_pdf_form_valid])

section \<open>Properties of the results view\<close>

subsection \<open>Badges\<close>

text \<open>
  Claim C5. The badge of a score is the badge of its tier under the fixed thresholds:
  Excellent from 80, Good from 60 to 79, Fair from 40 to 59, Poor below 40. So 79 is Good,
  80 Excellent, 60 Good and 39 Poor. The function reads nothing but the score.
\<close>

theorem badge_tiers:
  "getScoreBadge s = badge (categorize s)
   \<and> getScoreBadge 79 = badge Good \<and> getScoreBadge 80 = badge Excellent
   \<and> getScoreBadge 60 = badge Good \<and> getScoreBadge 39 = badge Poor"
  by (simp add: getScoreBadge_def categorize_def badge_def lit_def)

theorem badge_tiers_witness:
  "getScoreBadge 85 = badge Excellent \<and> getScoreBadge 45 = badge Fair"
  using badge_tiers [of 85] badge_tiers [of 45] by (simp add: categorize_def)

lemma badge_inject: "badge c = badge c' \<longleftrightarrow> c = c'"
  by (cases c; cases c') (simp_all add: badge_def lit_def)

text \<open>
  Claim C10. Every integer score, inside [0,100] or not, gets the badge of exactly one of
  the four tiers: Excellent for every score from 80 (150 for one), Poor for every score
  below 40 (-5 for one).
\<close>

theorem badge_total:
  "(\<exists>!c. getScoreBadge s = badge c)
   \<and> (80 \<le> s \<longrightarrow> getScoreBadge s = badge Excellent)
   \<and> (s < 40 \<longrightarrow> getScoreBadge s = badge Poor)
   \<and> getScoreBadge 150 = badge Excellent \<and> getScoreBadge (- 5) = badge Poor"
proof -
  have tier: "getScoreBadge s = badge (categorize s)" for s
    by (simp add: getScoreBadge_def categorize_def badge_def lit_def)
  then have "\<exists>!c. getScoreBadge s = badge c"
    by (auto simp: badge_inject)
  then show ?thesis
    by (simp add: tier categorize_def)
qed

theorem badge_total_witness:
  "(80::int) \<le> 100000 \<and> getScoreBadge 100000 = badge Excellent
   \<and> (- 100000 :: int) < 40 \<and> getScoreBadge (- 100000) = badge Poor"
  using badge_total [of 100000] badge_total [of "- 100000"] by simp

subsection \<open>One render\<close>

text \<open>
  For a non-empty result set the render allocates two arrays, the filtered one and its
  sorted copy, and leaves every array that was there before as it was.
\<close>

lemma Results_render:
  assumes "r < length h" and "h ! r \<noteq> []"
  shows "Results lc (Some r) sortBy t h =
    (ResultsView \<lparr>filtered = length h, sorted_results = Suc (length h),
                  stats = compute_stats (h ! r)\<rparr>,
     h @ [filter (\<lambda>x. t \<le> score x) (h ! r),
          js_sort (compare_results lc sortBy) (filter (\<lambda>x. t \<le> score x) (h ! r))])"
  using assms
  by (simp add: Results_def array_filter_def array_spread_def array_sort_def new_array_def
      nth_append list_update_append)

lemma Results_empty: "h ! r = [] \<Longrightarrow> Results lc (Some r) sortBy t h = (EmptyState, h)"
  by (simp add: Results_def)

lemma visible_render:
  assumes "r < length h" and "h ! r \<noteq> []"
  shows "visible (Results lc (Some r) sortBy t h) =
           js_sort (compare_results lc sortBy) (filter (\<lambda>x. t \<le> score x) (h ! r))"
  by (simp add: Results_render [OF assms] visible_def nth_append)

lemma heap_kept:
  assumes "r < length h" and "h ! r \<noteq> []" and "a < length h"
  shows "snd (Results lc (Some r) sortBy t h) ! a = h ! a"
  by (simp add: Results_render [OF assms(1,2)] nth_append assms(3))

subsection \<open>The sort\<close>

text \<open>
  With the score comparator the sort is the library's stable insertion sort on the negated
  score. With any consistent comparator it commutes with filtering.
\<close>

lemma length_insert_by [simp]: "length (insert_by cmp x ys) = Suc (length ys)"
  by (induction ys) simp_all

lemma length_js_sort [simp]: "length (js_sort cmp xs) = length xs"
  by (induction xs) (simp_all add: js_sort_def)

lemma insert_by_score:
  "insert_by (\<lambda>a b. score b - score a) x ys = insort_key (\<lambda>r. - score r) x ys"
  by (induction ys) simp_all

lemma js_sort_score:
  "js_sort (compare_results lc (lit ''score'')) xs = sort_key (\<lambda>r. - score r) xs"
proof -
  have "compare_results lc (lit ''score'') = (\<lambda>a b. score b - score a)"
    by (simp add: compare_results_def fun_eq_iff)
  then show ?thesis
    by (induction xs) (simp_all add: js_sort_def insert_by_score)
qed

lemma sorted_desc:
  "sorted (map (\<lambda>r. - score r) xs) \<longleftrightarrow> sorted_wrt (\<lambda>a b. score b \<le> score a) xs"
  by (induction xs) auto
lemma consistent_trans: "consistent cmp \<Longrightarrow> cmp x y \<le> 0 \<Longrightarrow> cmp y z \<le> 0 \<Longrightarrow> cmp x z \<le> 0"
  unfolding consistent_def by blast

lemma consistent_total: "consistent cmp \<Longrightarrow> \<not> cmp x y \<le> 0 \<Longrightarrow> cmp y x \<le> 0"
  unfolding consistent_def by blast

lemma insert_by_front: "\<forall>z\<in>set zs. cmp x z \<le> 0 \<Longrightarrow> insert_by cmp x zs = x # zs"
  by (cases zs) simp_all

lemma set_insert_by [simp]: "set (insert_by cmp x ys) = insert x (set ys)"
  by (induction ys) auto

lemma sorted_insert_by:
  assumes "consistent cmp" and "sorted_wrt (\<lambda>a b. cmp a b \<le> 0) ys"
  shows "sorted_wrt (\<lambda>a b. cmp a b \<le> 0) (insert_by cmp x ys)"
  using assms(2)
proof (induction ys)
  case Nil
  show ?case by simp
next
  case (Cons y ys)
  show ?case
  proof (cases "cmp x y \<le> 0")
    case True
    have "cmp x z \<le> 0" if "z \<in> set ys" for z
    proof -
      from Cons.prems that have "cmp y z \<le> 0" by simp
      with True show ?thesis by (rule consistent_trans [OF assms(1)])
    qed
    with True Cons.prems show ?thesis by simp
  next
    case False
    then have "cmp y x \<le> 0"
      by (rule consistent_total [OF assms(1)])
    with False Cons show ?thesis by simp
  qed
qed

lemma sorted_js_sort:
  "consistent cmp \<Longrightarrow> sorted_wrt (\<lambda>a b. cmp a b \<le> 0) (js_sort cmp xs)"
  by (induction xs) (simp_all add: js_sort_def sorted_insert_by)

lemma filter_insert_by:
  assumes "consistent cmp" and "sorted_wrt (\<lambda>a b. cmp a b \<le> 0) ys"
  shows "filter P (insert_by cmp x ys) =
           (if P x then insert_by cmp x (filter P ys) else filter P ys)"
  using assms(2)
proof (induction ys)
  case Nil
  show ?case by simp
next
  case (Cons y ys)
  show ?case
  proof (cases "cmp x y \<le> 0")
    case True
    have "cmp x z \<le> 0" if "z \<in> set ys" for z
    proof -
      from Cons.prems that have "cmp y z \<le> 0" by simp
      with True show ?thesis by (rule consistent_trans [OF assms(1)])
    qed
    then have "insert_by cmp x (filter P ys) = x # filter P ys"
      by (intro insert_by_front) simp
    with True show ?thesis by simp
  next
    case False
    with Cons show ?thesis by simp
  qed
qed

lemma filter_js_sort:
  "consistent cmp \<Longrightarrow> filter P (js_sort cmp xs) = js_sort cmp (filter P xs)"
proof (induction xs)
  case Nil
  show ?case by (simp add: js_sort_def)
next
  case (Cons x xs)
  have "filter P (insert_by cmp x (js_sort cmp xs)) =
          (if P x then insert_by cmp x (filter P (js_sort cmp xs)) else filter P (js_sort cmp xs))"
    by (rule filter_insert_by [OF Cons.prems sorted_js_sort [OF Cons.prems]])
  with Cons show ?case by (simp add: js_sort_def)
qed

lemma consistent_compare_results:
  assumes "sortBy \<noteq> lit ''name'' \<or> consistent lc"
  shows "consistent (compare_results lc sortBy)"
proof (cases "sortBy = lit ''score''")
  case True
  then have "compare_results lc sortBy = (\<lambda>a b. score b - score a)"
    by (simp add: compare_results_def fun_eq_iff)
  then show ?thesis by (auto simp add: consistent_def)
next
  case False
  note not_score = this
  show ?thesis
  proof (cases "sortBy = lit ''name''")
    case True
    with not_score have eq: "compare_results lc sortBy = (\<lambda>a b. lc (name a) (name b))"
      by (simp add: compare_results_def fun_eq_iff)
    from True assms have c: "consistent lc" by simp
    show ?thesis
      unfolding eq consistent_def
    proof (intro conjI allI impI)
      fix x y :: RankedResult
      show "lc (name x) (name y) \<le> 0 \<or> lc (name y) (name x) \<le> 0"
        using consistent_total [OF c] by blast
    next
      fix x y z :: RankedResult
      assume "lc (name x) (name y) \<le> 0 \<and> lc (name y) (name z) \<le> 0"
      then show "lc (name x) (name z) \<le> 0"
        using consistent_trans [OF c] by blast
    qed
  next
    case False
    with not_score have "compare_results lc sortBy = (\<lambda>a b. 0)"
      by (simp add: compare_results_def fun_eq_iff)
    then show ?thesis by (simp add: consistent_def)
  qed
qed

lemma visible_three:
  "visible (Results lc (Some 0) (lit ''score'') t three_results) =
     js_sort (compare_results lc (lit ''score''))
       (filter (\<lambda>x. t \<le> score x) [candidate ''A'' 90, candidate ''B'' 70, candidate ''C'' 50])"
  using visible_render [of 0 three_results lc "lit ''score''" t] by (simp add: three_results_def)

subsection \<open>Filtering\<close>

text \<open>
  Claim C4. For a non-empty result set the filtered array holds exactly the results with
  \<open>score \<ge> filterThreshold\<close>, in their order, and every array allocated before the
  render, the result set among them, is unchanged. Filtering is monotone: for thresholds
  \<open>t1 \<le> t2\<close> the results kept under \<open>t2\<close> are a subsequence of those kept under
  \<open>t1\<close>, the visible list under \<open>t2\<close> is not longer than the one under \<open>t1\<close>, and
  it is a subsequence of it whenever the sort comparator is a consistent ordering (always for
  the score key; for the name key when \<open>localeCompare\<close> is one).
\<close>


theorem filter_keeps_and_is_monotone:
  assumes "r < length h" and "h ! r \<noteq> []"
  shows "(\<exists>v h'. Results lc (Some r) sortBy t h = (ResultsView v, h')
            \<and> h' ! filtered v = filter (\<lambda>x. score x \<ge> t) (h ! r)
            \<and> (\<forall>a<length h. h' ! a = h ! a))
         \<and> (\<forall>t1 t2. t1 \<le> t2 \<longrightarrow>
              subseq (filter (\<lambda>x. score x \<ge> t2) (h ! r)) (filter (\<lambda>x. score x \<ge> t1) (h ! r))
              \<and> length (visible (Results lc (Some r) sortBy t2 h))
                  \<le> length (visible (Results lc (Some r) sortBy t1 h))
              \<and> (sortBy \<noteq> lit ''name'' \<or> consistent lc \<longrightarrow>
                   subseq (visible (Results lc (Some r) sortBy t2 h))
                          (visible (Results lc (Some r) sortBy t1 h))))"
proof (intro conjI allI impI)
  show "\<exists>v h'. Results lc (Some r) sortBy t h = (ResultsView v, h')
            \<and> h' ! filtered v = filter (\<lambda>x. score x \<ge> t) (h ! r)
            \<and> (\<forall>a<length h. h' ! a = h ! a)"
    by (simp add: Results_render [OF assms] nth_append)
next
  fix t1 t2 :: int
  assume le: "t1 \<le> t2"
  let ?xs = "h ! r"
  have nest: "filter (\<lambda>x. score x \<ge> t2) ?xs = filter (\<lambda>x. score x \<ge> t2) (filter (\<lambda>x. score x \<ge> t1) ?xs)"
    using le by (auto intro!: filter_cong)
  show sub: "subseq (filter (\<lambda>x. score x \<ge> t2) ?xs) (filter (\<lambda>x. score x \<ge> t1) ?xs)"
    by (subst nest) (rule subseq_filter_left)
  show "length (visible (Results lc (Some r) sortBy t2 h))
          \<le> length (visible (Results lc (Some r) sortBy t1 h))"
    using list_emb_length [OF sub] by (simp add: visible_render [OF assms])
  assume "sortBy \<noteq> lit ''name'' \<or> consistent lc"
  then have c: "consistent (compare_results lc sortBy)"
    by (rule consistent_compare_results)
  have "visible (Results lc (Some r) sortBy t2 h) =
          filter (\<lambda>x. score x \<ge> t2) (visible (Results lc (Some r) sortBy t1 h))"
    unfolding visible_render [OF assms] filter_js_sort [OF c] by (subst nest) simp
  then show "subseq (visible (Results lc (Some r) sortBy t2 h))
                    (visible (Results lc (Some r) sortBy t1 h))"
    by simp
qed

theorem filter_keeps_and_is_monotone_witness:
  "0 < length three_results \<and> three_results ! 0 \<noteq> [] \<and> (60::int) \<le> 80
   \<and> visible (Results no_collation (Some 0) (lit ''score'') 60 three_results)
       = [candidate ''A'' 90, candidate ''B'' 70]
   \<and> visible (Results no_collation (Some 0) (lit ''score'') 80 three_results)
       = [candidate ''A'' 90]
   \<and> subseq (visible (Results no_collation (Some 0) (lit ''score'') 80 three_results))
             (visible (Results no_collation (Some 0) (lit ''score'') 60 three_results))"
proof -
  have a: "0 < length three_results" and b: "three_results ! 0 \<noteq> []"
    by (simp_all add: three_results_def)
  have c: "lit ''score'' \<noteq> lit ''name'' \<or> consistent no_collation"
    by (simp add: lit_def)
  have "subseq (visible (Results no_collation (Some 0) (lit ''score'') 80 three_results))
               (visible (Results no_collation (Some 0) (lit ''score'') 60 three_results))"
    using filter_keeps_and_is_monotone [OF a b, of no_collation "lit ''score''" 0] c by simp
  moreover have "visible (Results no_collation (Some 0) (lit ''score'') 60 three_results)
       = [candidate ''A'' 90, candidate ''B'' 70]"
    by (simp add: visible_three js_sort_def compare_results_def candidate_def)
  moreover have "visible (Results no_collation (Some 0) (lit ''score'') 80 three_results)
       = [candidate ''A'' 90]"
    by (simp add: visible_three js_sort_def compare_results_def candidate_def)
  ultimately show ?thesis using a b by simp
qed

subsection \<open>Sorting by score\<close>

text \<open>
  Claim C2. Sorted by the score key, the visible list is the filtered list in descending
  order of score: a permutation of it in which no result comes before one with a higher
  score, and in which the results of any one score keep the relative order they have in
  the result set (the sort is stable). For the results A and B, both with score 50, A stays
  before B. The render changes no array that existed before it, so the result set is not
  mutated.
\<close>


theorem sort_by_score_stable:
  assumes "r < length h" and "h ! r \<noteq> []"
  shows "sorted_wrt (\<lambda>a b. score a \<ge> score b) (visible (Results lc (Some r) (lit ''score'') t h))
    \<and> mset (visible (Results lc (Some r) (lit ''score'') t h))
        = mset (filter (\<lambda>x. score x \<ge> t) (h ! r))
    \<and> (\<forall>k. filter (\<lambda>x. score x = k) (visible (Results lc (Some r) (lit ''score'') t h))
           = filter (\<lambda>x. score x = k) (filter (\<lambda>x. score x \<ge> t) (h ! r)))
    \<and> (\<forall>a<length h. snd (Results lc (Some r) (lit ''score'') t h) ! a = h ! a)
    \<and> visible (Results lc (Some 0) (lit ''score'') 0 [[candidate ''A'' 50, candidate ''B'' 50]])
        = [candidate ''A'' 50, candidate ''B'' 50]"
proof -
  let ?f = "filter (\<lambda>x. score x \<ge> t) (h ! r)"
  have v: "visible (Results lc (Some r) (lit ''score'') t h) = sort_key (\<lambda>r. - score r) ?f"
    by (simp add: visible_render [OF assms] js_sort_score)
  have "sorted (map (\<lambda>r. - score r) (sort_key (\<lambda>r. - score r) ?f))"
    by (rule sorted_sort_key)
  then have 1: "sorted_wrt (\<lambda>a b. score a \<ge> score b) (sort_key (\<lambda>r. - score r) ?f)"
    by (simp only: sorted_desc)
  have 2: "mset (sort_key (\<lambda>r. - score r) ?f) = mset ?f"
    by simp
  have 3: "filter (\<lambda>x. score x = k) (sort_key (\<lambda>r. - score r) ?f) = filter (\<lambda>x. score x = k) ?f" for k
    using sort_key_stable [of "\<lambda>r. - score r" "- k" ?f] by simp
  have 4: "\<forall>a<length h. snd (Results lc (Some r) (lit ''score'') t h) ! a = h ! a"
    by (simp add: heap_kept [OF assms])
  have 5: "visible (Results lc (Some 0) (lit ''score'') 0 [[candidate ''A'' 50, candidate ''B'' 50]])
        = [candidate ''A'' 50, candidate ''B'' 50]"
    using visible_render [of 0 "[[candidate ''A'' 50, candidate ''B'' 50]]" lc "lit ''score''" 0]
    by (simp add: js_sort_def compare_results_def candidate_def)
  show ?thesis
    unfolding v using 1 2 3 4 5 by (simp only: simp_thms v)
qed

theorem sort_by_score_stable_witness:
  "0 < length mixed_results \<and> mixed_results ! 0 \<noteq> []
   \<and> visible (Results no_collation (Some 0) (lit ''score'') 60 mixed_results)
       = [candidate ''D'' 90, candidate ''C'' 70, candidate ''B'' 70]
   \<and> sorted_wrt (\<lambda>a b. score a \<ge> score b)
        (visible (Results no_collation (Some 0) (lit ''score'') 60 mixed_results))
   \<and> filter (\<lambda>x. score x = 70) (visible (Results no_collation (Some 0) (lit ''score'') 60 mixed_results))
       = [candidate ''C'' 70, candidate ''B'' 70]"
proof -
  have a: "0 < length mixed_results" and b: "mixed_results ! 0 \<noteq> []"
    by (simp_all add: mixed_results_def)
  have v: "visible (Results no_collation (Some 0) (lit ''score'') 60 mixed_results)
       = [candidate ''D'' 90, candidate ''C'' 70, candidate ''B'' 70]"
    using visible_render [OF a b, of no_collation "lit ''score''" 60]
    by (simp add: mixed_results_def js_sort_def compare_results_def candidate_def)
  have "filter (\<lambda>x. score x = 70) (filter (\<lambda>x. score x \<ge> 60) (mixed_results ! 0))
          = [candidate ''C'' 70, candidate ''B'' 70]"
    by (simp add: mixed_results_def candidate_def)
  then show ?thesis
    using sort_by_score_stable [OF a b, of no_collation 60] a b v by simp
qed

subsection \<open>Binary64 rounding\<close>

text \<open>
  The rounding error is at most \<open>2\<^sup>-\<^sup>5\<^sup>3\<close> of the value, and integers below \<open>2\<^sup>5\<^sup>3\<close>
  in absolute value are exact. So a sum of scores whose absolute values add up to less than
  \<open>2\<^sup>5\<^sup>3\<close> is computed exactly, and dividing it by the count and printing one decimal
  gives a tenth nearest to the true mean.
\<close>

lemma bitlen_rat_bounds:
  assumes "0 < p"
  shows "(2::rat) powi (bitlen p - 1) \<le> of_int p" and "of_int p < (2::rat) powi bitlen p"
proof -
  from assms have pos: "1 \<le> bitlen p"
    by (simp add: bitlen_alt_def)
  have "2 ^ nat (bitlen p - 1) \<le> p" and "p < 2 ^ nat (bitlen p)"
    using bitlen_bounds [OF assms] by simp_all
  then have "(of_int (2 ^ nat (bitlen p - 1)) :: rat) \<le> of_int p"
    and "(of_int p :: rat) < of_int (2 ^ nat (bitlen p))"
    by (simp_all only: of_int_le_iff of_int_less_iff)
  then show "(2::rat) powi (bitlen p - 1) \<le> of_int p" and "of_int p < (2::rat) powi bitlen p"
    using pos by (simp_all add: power_int_nonneg_exp)
qed

lemma expo_bounds:
  assumes "x \<noteq> 0"
  shows "2 powi expo x \<le> \<bar>x\<bar>" and "\<bar>x\<bar> < 2 powi (expo x + 1)"
proof -
  obtain p q where pq: "quotient_of \<bar>x\<bar> = (p, q)"
    by (cases "quotient_of \<bar>x\<bar>")
  have q: "0 < q" by (rule quotient_of_denom_pos [OF pq])
  have x: "\<bar>x\<bar> = of_int p / of_int q" by (rule quotient_of_div [OF pq])
  have "0 < \<bar>x\<bar>" using assms by simp
  with x q have "0 < (of_int p :: rat)"
    by (simp add: zero_less_divide_iff)
  then have p: "0 < p" by simp
  let ?d = "bitlen p - bitlen q"
  have up: "\<bar>x\<bar> < 2 powi (?d + 1)"
  proof -
    have "of_int p / of_int q < (2::rat) powi bitlen p / 2 powi (bitlen q - 1)"
      using bitlen_rat_bounds [OF p] bitlen_rat_bounds [OF q] p
      by (intro frac_less) simp_all
    also have "\<dots> = 2 powi (bitlen p - (bitlen q - 1))"
      by (simp add: power_int_diff)
    finally show ?thesis by (simp add: x algebra_simps)
  qed
  have low: "2 powi (?d - 1) < \<bar>x\<bar>"
  proof -
    have "(2::rat) powi (bitlen p - 1) / 2 powi bitlen q < of_int p / of_int q"
      using bitlen_rat_bounds [OF p] bitlen_rat_bounds [OF q] q
      by (intro frac_less2) simp_all
    moreover have "(2::rat) powi (bitlen p - 1) / 2 powi bitlen q = 2 powi (bitlen p - 1 - bitlen q)"
      by (simp add: power_int_diff)
    ultimately show ?thesis by (simp add: x algebra_simps)
  qed
  have e: "expo x = (if 2 powi ?d \<le> \<bar>x\<bar> then ?d else ?d - 1)"
    by (simp add: expo_def pq)
  show "2 powi expo x \<le> \<bar>x\<bar>"
    using low by (simp add: e)
  show "\<bar>x\<bar> < 2 powi (expo x + 1)"
    using up by (simp add: e not_le)
qed

lemma rne_error: "\<bar>of_int (rne y) - y\<bar> \<le> 1 / 2"
proof -
  have "of_int \<lfloor>y\<rfloor> \<le> y" and "y < of_int \<lfloor>y\<rfloor> + 1"
    by linarith+
  then show ?thesis
    by (auto simp add: rne_def Let_def)
qed

lemma rne_of_int [simp]: "rne (of_int k) = k"
  by (simp add: rne_def)

lemma fl_error:
  assumes "x \<noteq> 0"
  shows "\<bar>fl x - x\<bar> \<le> \<bar>x\<bar> / 2 ^ 53"
proof -
  let ?u = "(2::rat) powi (expo x - 52)"
  have u: "0 < ?u" by (simp add: zero_less_power_int)
  have "fl x - x = (of_int (rne (x / ?u)) - x / ?u) * ?u"
    using assms u by (simp add: fl_def Let_def algebra_simps)
  then have "\<bar>fl x - x\<bar> = \<bar>of_int (rne (x / ?u)) - x / ?u\<bar> * ?u"
    using u by (simp add: abs_mult)
  also have "\<dots> \<le> 1 / 2 * ?u"
    using rne_error [of "x / ?u"] u by (intro mult_right_mono) simp_all
  also have "\<dots> = 2 powi expo x / 2 ^ 53"
    by (simp add: power_int_diff)
  also have "\<dots> \<le> \<bar>x\<bar> / 2 ^ 53"
    using expo_bounds(1) [OF assms] by (simp add: divide_right_mono)
  finally show ?thesis .
qed

lemma fl_of_int:
  assumes "\<bar>n\<bar> < 2 ^ 53"
  shows "fl (of_int n) = of_int n"
proof (cases "n = 0")
  case True
  then show ?thesis by (simp add: fl_def)
next
  case False
  let ?x = "of_int n :: rat"
  from False have x: "?x \<noteq> 0" by simp
  have "2 powi expo ?x \<le> \<bar>?x\<bar>" by (rule expo_bounds(1) [OF x])
  also have "\<bar>?x\<bar> < 2 ^ 53"
    using assms by (metis of_int_abs of_int_less_numeral_power_cancel_iff)
  finally have "(2::rat) powi expo ?x < 2 powi 53" by simp
  then have "expo ?x < 53"
    by (rule power_int_le_imp_less_exp [rotated]) simp_all
  then have e: "expo ?x \<le> 52" by simp
  define k where "k = nat (52 - expo ?x)"
  have k: "52 - expo ?x = int k" using e by (simp add: k_def)
  have u: "(2::rat) powi (expo ?x - 52) = 1 / 2 ^ k"
  proof -
    have "expo ?x - 52 = - int k" using k by simp
    then have "(2::rat) powi (expo ?x - 52) = 2 powi (- int k)" by simp
    also have "\<dots> = inverse (2 powi int k)" by (rule power_int_minus)
    also have "\<dots> = 1 / 2 ^ k" by (simp add: inverse_eq_divide)
    finally show ?thesis .
  qed
  have "?x / (1 / 2 ^ k) = of_int (n * 2 ^ k)" by simp
  then have "rne (?x / (1 / 2 ^ k)) = n * 2 ^ k"
    by (simp only: rne_of_int)
  then show ?thesis
    using x by (simp add: fl_def Let_def u)
qed
lemma sum_exact:
  assumes "\<bar>a\<bar> + (\<Sum>r\<leftarrow>rs. \<bar>score r\<bar>) < 2 ^ 53"
  shows "foldl (\<lambda>sum r. js_add sum (of_int (score r))) (of_int a) rs
           = of_int (a + (\<Sum>r\<leftarrow>rs. score r))"
  using assms
proof (induction rs arbitrary: a)
  case Nil
  show ?case by simp
next
  case (Cons r rs)
  have nonneg: "0 \<le> (\<Sum>r\<leftarrow>rs. \<bar>score r\<bar>)"
    by (rule sum_list_nonneg) auto
  have "\<bar>a + score r\<bar> < 2 ^ 53"
    using Cons.prems nonneg by simp
  then have step: "js_add (of_int a) (of_int (score r)) = of_int (a + score r)"
    using fl_of_int [of "a + score r"] by (simp add: js_add_def)
  have "\<bar>a + score r\<bar> + (\<Sum>r\<leftarrow>rs. \<bar>score r\<bar>) < 2 ^ 53"
    using Cons.prems by simp
  then show ?case
    using Cons.IH [of "a + score r"] by (simp add: step add.assoc)
qed

lemma tenths_error: "\<bar>of_int (signed_tenths x) - 10 * x\<bar> \<le> 1 / 2"
proof -
  define k where "k = \<lfloor>\<bar>x\<bar> * 10 + 1 / 2\<rfloor>"
  have 1: "of_int k \<le> \<bar>x\<bar> * 10 + 1 / 2"
    unfolding k_def by (rule of_int_floor_le)
  have 2: "\<bar>x\<bar> * 10 + 1 / 2 < of_int k + 1"
    unfolding k_def by linarith
  have "0 \<le> k" unfolding k_def by simp
  then have k: "int (fixed1_tenths x) = k"
    by (simp add: fixed1_tenths_def k_def)
  show ?thesis
  proof (cases "x < 0")
    case True
    then have "of_int (signed_tenths x) - 10 * x = - (of_int k - \<bar>x\<bar> * 10)"
      by (simp add: signed_tenths_def k)
    moreover have "\<bar>of_int k - \<bar>x\<bar> * 10\<bar> \<le> 1 / 2"
      using 1 2 by (simp only: abs_le_iff) linarith
    ultimately show ?thesis by (simp only: abs_minus_cancel)
  next
    case False
    then have "of_int (signed_tenths x) - 10 * x = of_int k - \<bar>x\<bar> * 10"
      by (simp add: signed_tenths_def k)
    moreover have "\<bar>of_int k - \<bar>x\<bar> * 10\<bar> \<le> 1 / 2"
      using 1 2 by (simp only: abs_le_iff) linarith
    ultimately show ?thesis by simp
  qed
qed

lemma avg_nearest:
  fixes S :: int and n :: nat
  assumes n: "0 < n" and bound: "20 * \<bar>S\<bar> < 2 ^ 53"
  defines "q \<equiv> (of_int S / of_nat n :: rat)"
  shows "\<bar>of_int (signed_tenths (fl q)) / 10 - q\<bar> \<le> 1 / 20"
proof (rule ccontr)
  assume far: "\<not> \<bar>of_int (signed_tenths (fl q)) / 10 - q\<bar> \<le> 1 / 20"
  let ?x = "fl q"
  let ?M = "signed_tenths ?x"
  have npos: "0 < (of_nat n :: rat)" using n by simp
  have qn: "q * of_nat n = of_int S" using n by (simp add: q_def)
  have close: "\<bar>?x - q\<bar> * (20 * of_nat n) < 1"
  proof (cases "q = 0")
    case True
    then show ?thesis by (simp add: fl_def)
  next
    case False
    have "\<bar>?x - q\<bar> \<le> \<bar>q\<bar> / 2 ^ 53" by (rule fl_error [OF False])
    then have "\<bar>?x - q\<bar> * (20 * of_nat n) \<le> \<bar>q\<bar> / 2 ^ 53 * (20 * of_nat n)"
      using npos by (intro mult_right_mono) simp_all
    also have "\<dots> = of_int (20 * \<bar>S\<bar>) / 2 ^ 53"
      using n by (simp add: q_def abs_divide)
    also have "\<dots> < 1"
    proof -
      have "(of_int (20 * \<bar>S\<bar>) :: rat) < of_int (2 ^ 53)"
        using bound by (simp only: of_int_less_iff)
      then show ?thesis by simp
    qed
    finally show ?thesis .
  qed
  from far have "1 / 20 < \<bar>of_int ?M / 10 - q\<bar>" by simp
  then have "1 / 20 * (20 * of_nat n) < \<bar>of_int ?M / 10 - q\<bar> * (20 * of_nat n)"
    using npos by (intro mult_strict_right_mono) simp_all
  also have "\<bar>of_int ?M / 10 - q\<bar> * (20 * of_nat n) = \<bar>(of_int ?M / 10 - q) * (20 * of_nat n)\<bar>"
    using npos by (simp add: abs_mult)
  also have "(of_int ?M / 10 - q) * (20 * of_nat n) = of_int (2 * ?M * int n - 20 * S)"
    using qn by (simp add: algebra_simps)
  finally have "(of_int (int n) :: rat) < of_int \<bar>2 * ?M * int n - 20 * S\<bar>"
    by simp
  then have "int n < \<bar>2 * ?M * int n - 20 * S\<bar>"
    by (simp only: of_int_less_iff)
  then have "int n + 1 \<le> \<bar>2 * ?M * int n - 20 * S\<bar>" by simp
  then have "(of_int (int n + 1) :: rat) \<le> of_int \<bar>2 * ?M * int n - 20 * S\<bar>"
    by (simp only: of_int_le_iff)
  also have "(of_int \<bar>2 * ?M * int n - 20 * S\<bar> :: rat) = \<bar>(of_int ?M - 10 * q) * (2 * of_nat n)\<bar>"
    using qn by (simp add: algebra_simps)
  also have "\<dots> = \<bar>of_int ?M - 10 * q\<bar> * (2 * of_nat n)"
    using npos by (simp add: abs_mult)
  also have "\<dots> \<le> (1 / 2 + 10 * \<bar>?x - q\<bar>) * (2 * of_nat n)"
  proof (intro mult_right_mono)
    have "of_int ?M - 10 * q = (of_int ?M - 10 * ?x) + (10 * ?x - 10 * q)"
      by simp
    then have "\<bar>of_int ?M - 10 * q\<bar> \<le> \<bar>of_int ?M - 10 * ?x\<bar> + \<bar>10 * ?x - 10 * q\<bar>"
      by (simp only: abs_triangle_ineq)
    moreover have "\<bar>10 * ?x - 10 * q\<bar> = 10 * \<bar>?x - q\<bar>"
    proof -
      have "10 * ?x - 10 * q = 10 * (?x - q)" by (simp only: right_diff_distrib)
      then have "\<bar>10 * ?x - 10 * q\<bar> = \<bar>10\<bar> * \<bar>?x - q\<bar>" by (simp only: abs_mult)
      then show ?thesis by simp
    qed
    ultimately show "\<bar>of_int ?M - 10 * q\<bar> \<le> 1 / 2 + 10 * \<bar>?x - q\<bar>"
      using tenths_error [of ?x] by linarith
    show "0 \<le> 2 * (of_nat n :: rat)" by simp
  qed
  also have "\<dots> = of_nat n + \<bar>?x - q\<bar> * (20 * of_nat n)"
    by (simp add: algebra_simps)
  finally have "1 \<le> \<bar>?x - q\<bar> * (20 * of_nat n)" by simp
  with close show False by simp
qed
subsection \<open>Statistics\<close>

lemma fold_max_of_int:
  "fold max (map (\<lambda>r. of_int (score r)) xs) (of_int a) = (of_int (fold max (map score xs) a) :: rat)"
  by (induction xs arbitrary: a) (simp_all add: of_int_max [symmetric] del: of_int_max)

lemma topScore_Max:
  assumes "rs \<noteq> []"
  shows "topScore (compute_stats rs) = Num (of_int (Max (set (map score rs))))"
proof -
  from assms obtain x xs where rs: "rs = x # xs" by (cases rs) auto
  have "Max (set (map score (x # xs))) = fold max (map score xs) (score x)"
    using Max.set_eq_fold [of "score x" "map score xs"] by simp
  then show ?thesis
    by (simp add: rs compute_stats_def fold_max_of_int)
qed

lemma abs_sum_list_le: "\<bar>\<Sum>r\<leftarrow>rs. score r\<bar> \<le> (\<Sum>r\<leftarrow>rs. \<bar>score r\<bar>)"
proof (induction rs)
  case Nil
  show ?case by simp
next
  case (Cons r rs)
  then show ?case by simp
qed

lemma avgScore_nearest:
  assumes "rs \<noteq> []" and bound: "20 * (\<Sum>r\<leftarrow>rs. \<bar>score r\<bar>) < 2 ^ 53"
  defines "mean \<equiv> (of_int (\<Sum>r\<leftarrow>rs. score r) / of_nat (length rs) :: rat)"
  shows "avgScore (compute_stats rs) = Text (fixed1_text (fl mean < 0) (fixed1_tenths (fl mean)))"
    and "\<bar>of_int (signed_tenths (fl mean)) / 10 - mean\<bar> \<le> 1 / 20"
proof -
  let ?S = "\<Sum>r\<leftarrow>rs. score r"
  have n: "0 < length rs" using assms(1) by simp
  have nonneg: "0 \<le> (\<Sum>r\<leftarrow>rs. \<bar>score r\<bar>)"
    by (rule sum_list_nonneg) auto
  have S: "20 * \<bar>?S\<bar> < 2 ^ 53"
    using abs_sum_list_le [of rs] bound by linarith
  have "\<bar>0::int\<bar> + (\<Sum>r\<leftarrow>rs. \<bar>score r\<bar>) < 2 ^ 53"
    using bound nonneg by simp
  from sum_exact [OF this]
  have sum: "foldl (\<lambda>sum r. js_add sum (of_int (score r))) 0 rs = of_int ?S"
    by simp
  have div: "js_divide (of_int ?S) (of_nat (length rs)) = Num (fl mean)"
    using n by (simp add: js_divide_def mean_def)
  show near: "\<bar>of_int (signed_tenths (fl mean)) / 10 - mean\<bar> \<le> 1 / 20"
    unfolding mean_def by (rule avg_nearest [OF n S])
  have small: "\<bar>fl mean\<bar> < 10 ^ 21"
  proof -
    have m: "\<bar>mean\<bar> \<le> of_int \<bar>?S\<bar>"
    proof -
      have "\<bar>mean\<bar> = of_int \<bar>?S\<bar> / of_nat (length rs)"
        by (simp add: mean_def abs_divide)
      also have "\<dots> \<le> of_int \<bar>?S\<bar> / 1"
      proof (intro divide_left_mono)
        show "(1::rat) \<le> of_nat (length rs)" using n by (simp add: Suc_le_eq)
      qed (use assms(1) in simp_all)
      finally show ?thesis by simp
    qed
    have "\<bar>fl mean - mean\<bar> \<le> \<bar>mean\<bar>"
    proof (cases "mean = 0")
      case True
      then show ?thesis by (simp add: fl_def)
    next
      case False
      have "\<bar>mean\<bar> / 2 ^ 53 \<le> \<bar>mean\<bar> / 1"
        by (intro divide_left_mono) simp_all
      then have "\<bar>mean\<bar> / 2 ^ 53 \<le> \<bar>mean\<bar>" by (simp only: div_by_1)
      with fl_error [OF False] show ?thesis by (rule order_trans)
    qed
    then have "\<bar>fl mean\<bar> \<le> 2 * \<bar>mean\<bar>" by linarith
    also have "\<dots> \<le> of_int (2 * \<bar>?S\<bar>)" using m by simp
    also have "\<dots> < of_int (10 ^ 21)"
      using S by (simp only: of_int_less_iff) simp
    finally show ?thesis by simp
  qed
  show "avgScore (compute_stats rs) = Text (fixed1_text (fl mean < 0) (fixed1_tenths (fl mean)))"
    using small by (simp add: compute_stats_def sum div)
qed

lemma stats_example:
  "compute_stats [candidate ''A'' 90, candidate ''B'' 70, candidate ''C'' 50]
     = \<lparr>total = 3, avgScore = Text (lit ''70.0''), topScore = Num 90\<rparr>"
  by code_simp

text \<open>
  Where the mean lies exactly between two tenths, the binary64 quotient decides which one is
  printed: twenty scores that add up to 7 have the mean 0.35, the quotient is just below it,
  and the text is "0.3".
\<close>

lemma toFixed1_binary_rounding: "toFixed1 (js_divide 7 20) = Text (lit ''0.3'')"
  by code_simp

text \<open>
  Every result set with scores in [0,100] is within the bound of the rounding lemmas, a
  JavaScript array having fewer than \<open>2\<^sup>3\<^sup>2\<close> elements.
\<close>

lemma in_range_bound:
  assumes "\<forall>x\<in>set rs. 0 \<le> score x \<and> score x \<le> 100" and "length rs < 2 ^ 32"
  shows "20 * (\<Sum>x\<leftarrow>rs. \<bar>score x\<bar>) < 2 ^ 53"
proof -
  have "(\<Sum>x\<leftarrow>rs. \<bar>score x\<bar>) \<le> (\<Sum>x\<leftarrow>rs. 100)"
    using assms(1) by (intro sum_list_mono) auto
  also have "\<dots> = 100 * int (length rs)"
    by (simp add: sum_list_triv)
  finally show ?thesis using assms(2) by simp
qed

text \<open>
  Claim C3. For a non-empty result set the statistics of a render are those of the whole
  result set, the same under every filter threshold, sort key and collation: \<open>total\<close> is
  the number of results, \<open>topScore\<close> the maximum score, and \<open>avgScore\<close> the text, with
  one decimal, of a tenth nearest to the mean of all scores. The last holds as long as 20
  times the sum of the absolute scores stays below \<open>2\<^sup>5\<^sup>3\<close>, which covers every result
  set with scores in [0,100]. For the scores 90, 70, 50 the statistics are 3, "70.0" and
  90 under every threshold.
\<close>

theorem stats_over_unfiltered:
  assumes "r < length h" and "h ! r \<noteq> []"
  shows "(\<exists>v h'. Results lc (Some r) sortBy t h = (ResultsView v, h')
            \<and> stats v = compute_stats (h ! r)
            \<and> (\<forall>lc' sortBy' t'. \<exists>v' h''.
                  Results lc' (Some r) sortBy' t' h = (ResultsView v', h'') \<and> stats v' = stats v)
            \<and> total (stats v) = length (h ! r)
            \<and> topScore (stats v) = Num (of_int (Max (set (map score (h ! r)))))
            \<and> (20 * (\<Sum>x\<leftarrow>h ! r. \<bar>score x\<bar>) < 2 ^ 53 \<longrightarrow>
                 (\<exists>neg n. avgScore (stats v) = Text (fixed1_text neg n)
                    \<and> \<bar>(if neg then - of_nat n else of_nat n) / 10
                         - of_int (\<Sum>x\<leftarrow>h ! r. score x) / of_nat (length (h ! r))\<bar>
                       \<le> (1 / 20 :: rat))))
         \<and> (\<forall>t'. \<exists>v h'. Results lc (Some 0) sortBy t' three_results = (ResultsView v, h')
                \<and> stats v = \<lparr>total = 3, avgScore = Text (lit ''70.0''), topScore = Num 90\<rparr>)"
proof (intro conjI allI)
  let ?rs = "h ! r"
  let ?mean = "of_int (\<Sum>x\<leftarrow>?rs. score x) / of_nat (length ?rs) :: rat"
  have avg: "\<exists>neg n. avgScore (compute_stats ?rs) = Text (fixed1_text neg n)
                    \<and> \<bar>(if neg then - of_nat n else of_nat n) / 10 - ?mean\<bar> \<le> (1 / 20 :: rat)"
    if bound: "20 * (\<Sum>x\<leftarrow>?rs. \<bar>score x\<bar>) < 2 ^ 53"
  proof (intro exI conjI)
    show "avgScore (compute_stats ?rs) = Text (fixed1_text (fl ?mean < 0) (fixed1_tenths (fl ?mean)))"
      by (rule avgScore_nearest(1) [OF assms(2) bound])
    have "(if fl ?mean < 0 then - of_nat (fixed1_tenths (fl ?mean)) else of_nat (fixed1_tenths (fl ?mean)))
            = (of_int (signed_tenths (fl ?mean)) :: rat)"
      by (simp add: signed_tenths_def)
    then show "\<bar>(if fl ?mean < 0 then - of_nat (fixed1_tenths (fl ?mean))
                  else of_nat (fixed1_tenths (fl ?mean))) / 10 - ?mean\<bar> \<le> (1 / 20 :: rat)"
      using avgScore_nearest(2) [OF assms(2) bound] by (simp only:)
  qed
  show "\<exists>v h'. Results lc (Some r) sortBy t h = (ResultsView v, h')
            \<and> stats v = compute_stats (h ! r)
            \<and> (\<forall>lc' sortBy' t'. \<exists>v' h''.
                  Results lc' (Some r) sortBy' t' h = (ResultsView v', h'') \<and> stats v' = stats v)
            \<and> total (stats v) = length (h ! r)
            \<and> topScore (stats v) = Num (of_int (Max (set (map score (h ! r)))))
            \<and> (20 * (\<Sum>x\<leftarrow>h ! r. \<bar>score x\<bar>) < 2 ^ 53 \<longrightarrow>
                 (\<exists>neg n. avgScore (stats v) = Text (fixed1_text neg n)
                    \<and> \<bar>(if neg then - of_nat n else of_nat n) / 10
                         - of_int (\<Sum>x\<leftarrow>h ! r. score x) / of_nat (length (h ! r))\<bar>
                       \<le> (1 / 20 :: rat)))"
    using avg topScore_Max [OF assms(2)]
    by (simp add: Results_render [OF assms]) (simp add: compute_stats_def)
next
  fix t'
  have "0 < length three_results" and "three_results ! 0 \<noteq> []"
    by (simp_all add: three_results_def)
  from Results_render [OF this, of lc sortBy t']
  show "\<exists>v h'. Results lc (Some 0) sortBy t' three_results = (ResultsView v, h')
                \<and> stats v = \<lparr>total = 3, avgScore = Text (lit ''70.0''), topScore = Num 90\<rparr>"
    by (simp add: three_results_def stats_example)
qed

theorem stats_over_unfiltered_witness:
  "0 < length three_results \<and> three_results ! 0 \<noteq> []
   \<and> 20 * (\<Sum>x\<leftarrow>three_results ! 0. \<bar>score x\<bar>) < 2 ^ 53
   \<and> (\<exists>v h'. Results no_collation (Some 0) (lit ''name'') 80 three_results = (ResultsView v, h')
         \<and> stats v = compute_stats (three_results ! 0)
         \<and> total (stats v) = 3
         \<and> topScore (stats v) = Num 90
         \<and> (\<exists>neg n. avgScore (stats v) = Text (fixed1_text neg n)
                    \<and> \<bar>(if neg then - of_nat n else of_nat n) / 10 - 70\<bar> \<le> (1 / 20 :: rat)))"
proof -
  have a: "0 < length three_results" and b: "three_results ! 0 \<noteq> []"
    by (simp_all add: three_results_def)
  have c: "20 * (\<Sum>x\<leftarrow>three_results ! 0. \<bar>score x\<bar>) < 2 ^ 53"
    by (simp add: three_results_def candidate_def)
  have d: "length (three_results ! 0) = 3" "(\<Sum>x\<leftarrow>three_results ! 0. score x) = 210"
    "Max (set (map score (three_results ! 0))) = 90"
    by (simp_all add: three_results_def candidate_def)
  from stats_over_unfiltered [OF a b, of no_collation "lit ''name''" 80] c
  obtain v h' where 1: "Results no_collation (Some 0) (lit ''name'') 80 three_results = (ResultsView v, h')"
    and 2: "stats v = compute_stats (three_results ! 0)"
    and 3: "total (stats v) = length (three_results ! 0)"
    and 4: "topScore (stats v) = Num (of_int (Max (set (map score (three_results ! 0)))))"
    and 5: "\<exists>neg n. avgScore (stats v) = Text (fixed1_text neg n)
              \<and> \<bar>(if neg then - of_nat n else of_nat n) / 10
                   - of_int (\<Sum>x\<leftarrow>three_results ! 0. score x) / of_nat (length (three_results ! 0))\<bar>
                 \<le> (1 / 20 :: rat)"
    by blast
  from 3 have s3: "total (stats v) = 3" by (simp only: d)
  from 4 have s4: "topScore (stats v) = Num 90" by (simp only: d) simp
  from 5 have s5: "\<exists>neg n. avgScore (stats v) = Text (fixed1_text neg n)
                    \<and> \<bar>(if neg then - of_nat n else of_nat n) / 10 - 70\<bar> \<le> (1 / 20 :: rat)"
    by (simp only: d) simp
  from a b c 1 2 s3 s4 s5 show ?thesis by blast
qed
subsection \<open>The empty result set\<close>

lemma point_in_fixed1_text: "0x2E \<in> set (fixed1_text b n)"
  by (simp add: fixed1_text_def lit_def)

lemma toFixed1_Num_not_NaN: "toFixed1 (Num x) \<noteq> Text (lit ''NaN'')"
proof
  assume "toFixed1 (Num x) = Text (lit ''NaN'')"
  then have "fixed1_text (x < 0) (fixed1_tenths x) = lit ''NaN''"
    by (simp split: if_splits)
  then have "(0x2E :: 16 word) \<in> set (lit ''NaN'')"
    using point_in_fixed1_text [of "x < 0" "fixed1_tenths x"] by simp
  then show False by (simp add: lit_def)
qed

text \<open>
  Claim C8. For a missing or an empty result set the component returns the empty-state
  placeholder and allocates nothing: no filtering, sorting or statistics run. Whenever the
  statistics are computed the result set is non-empty, so the count that divides the sum is
  not 0 and the maximum is over at least one score: the average is never the text of NaN
  and the top score never \<open>-Infinity\<close>, which is what the two computations would give on
  an empty result set.
\<close>


theorem empty_results_guard:
  "Results lc None sortBy t h = (EmptyState, h)
   \<and> (h ! r = [] \<longrightarrow> Results lc (Some r) sortBy t h = (EmptyState, h))
   \<and> (r < length h \<and> h ! r \<noteq> [] \<longrightarrow>
        (\<exists>v h'. Results lc (Some r) sortBy t h = (ResultsView v, h')
           \<and> stats v = compute_stats (h ! r)
           \<and> total (stats v) \<noteq> 0
           \<and> avgScore (stats v) \<noteq> Text (lit ''NaN'')
           \<and> topScore (stats v) \<noteq> NegInfinity))
   \<and> avgScore (compute_stats []) = Text (lit ''NaN'')
   \<and> topScore (compute_stats []) = NegInfinity"
proof (intro conjI impI)
  show "Results lc None sortBy t h = (EmptyState, h)"
    by (simp add: Results_def)
  show "Results lc (Some r) sortBy t h = (EmptyState, h)" if "h ! r = []"
    using that by (rule Results_empty)
  show "avgScore (compute_stats []) = Text (lit ''NaN'')"
    by (simp add: compute_stats_def js_divide_def)
  show "topScore (compute_stats []) = NegInfinity"
    by (simp add: compute_stats_def)
next
  assume a: "r < length h \<and> h ! r \<noteq> []"
  then obtain x xs where xs: "h ! r = x # xs" by (cases "h ! r") auto
  have "avgScore (compute_stats (h ! r)) \<noteq> Text (lit ''NaN'')"
    unfolding xs by (simp add: compute_stats_def js_divide_def toFixed1_Num_not_NaN del: toFixed1.simps)
  moreover have "topScore (compute_stats (h ! r)) \<noteq> NegInfinity"
    unfolding xs by (simp add: compute_stats_def)
  moreover have "total (compute_stats (h ! r)) \<noteq> 0"
    unfolding xs by (simp add: compute_stats_def)
  ultimately show "\<exists>v h'. Results lc (Some r) sortBy t h = (ResultsView v, h')
           \<and> stats v = compute_stats (h ! r)
           \<and> total (stats v) \<noteq> 0
           \<and> avgScore (stats v) \<noteq> Text (lit ''NaN'')
           \<and> topScore (stats v) \<noteq> NegInfinity"
    using a by (simp add: Results_render)
qed

theorem empty_results_guard_witness:
  "Results no_collation (Some 1) (lit ''score'') 0 (three_results @ [[]])
     = (EmptyState, three_results @ [[]])
   \<and> 0 < length three_results \<and> three_results ! 0 \<noteq> []
   \<and> (\<exists>v h'. Results no_collation (Some 0) (lit ''score'') 0 three_results = (ResultsView v, h')
         \<and> avgScore (stats v) \<noteq> Text (lit ''NaN'') \<and> topScore (stats v) \<noteq> NegInfinity)"
proof -
  have e: "(three_results @ [[]]) ! 1 = []" by (simp add: three_results_def)
  have a: "0 < length three_results \<and> three_results ! 0 \<noteq> []" by (simp add: three_results_def)
  show ?thesis
    using empty_results_guard [of no_collation "lit ''score''" 0 "three_results @ [[]]" 1]
      empty_results_guard [of no_collation "lit ''score''" 0 three_results 0] e a
    by auto
qed

end
